theory Spec2Isabelle
  imports Complex_Main "HOL-Library.Word"
begin

section \<open>Configuration: the table of targets\<close>

text \<open>
  The four keys of the object \<open>TARGETS\<close> (Code.jsx, lines 15 to 32) and the record stored
  under each. JavaScript strings are sequences of 16-bit code units; every character of
  the table is below 256, so one \<open>char\<close> stands for one code unit. The degree sign is
  \<open>CHR 0xB0\<close> and the double quote \<open>CHR 0x22\<close>. The field \<open>dist\<close> of the source is
  \<open>dist_t\<close> here, since \<open>dist\<close> is the distance of a metric space in HOL.
\<close>

datatype target_id = MOON | JUPITER | SATURN | MARS

record target_rec =
  url :: string
  ra :: string
  dec :: string
  dist_t :: string

fun TARGETS :: "target_id \<Rightarrow> target_rec" where
  "TARGETS MOON = \<lparr>
     url = ''https://upload.wikimedia.org/wikipedia/commons/thumb/1/1a/Tycho_crater_on_the_Moon_-_LRO_WAC.jpg/600px-Tycho_crater_on_the_Moon_-_LRO_WAC.jpg'',
     ra = ''05h 12m 14s'',
     dec = ''+18'' @ [CHR 0xB0] @ '' 12' 09'' @ [CHR 0x22],
     dist_t = ''384,400 km'' \<rparr>"
| "TARGETS JUPITER = \<lparr>
     url = ''https://upload.wikimedia.org/wikipedia/commons/e/e2/Jupiter.jpg'',
     ra = ''01h 45m 22s'',
     dec = ''+10'' @ [CHR 0xB0] @ '' 20' 44'' @ [CHR 0x22],
     dist_t = ''714,000,000 km'' \<rparr>"
| "TARGETS SATURN = \<lparr>
     url = ''https://upload.wikimedia.org/wikipedia/commons/c/c7/Saturn_during_Equinox.jpg'',
     ra = ''22h 30m 11s'',
     dec = ''-15'' @ [CHR 0xB0] @ '' 45' 10'' @ [CHR 0x22],
     dist_t = ''1,400,000,000 km'' \<rparr>"
| "TARGETS MARS = \<lparr>
     url = ''https://upload.wikimedia.org/wikipedia/commons/0/02/OSIRIS_Mars_true_color.jpg'',
     ra = ''14h 22m 10s'',
     dec = ''-12'' @ [CHR 0xB0] @ '' 10' 05'' @ [CHR 0x22],
     dist_t = ''225,000,000 km'' \<rparr>"

text \<open>The key itself, as the template literals \<open>${target}\<close> print it.\<close>

fun target_name :: "target_id \<Rightarrow> string" where
  "target_name MOON = ''MOON''"
| "target_name JUPITER = ''JUPITER''"
| "target_name SATURN = ''SATURN''"
| "target_name MARS = ''MARS''"

section \<open>The state of the component\<close>

datatype ibm_status = DISCONNECTED | CONNECTING | QUEUED | ACTIVE

text \<open>
  A decoded image: the address it was requested from and its dimensions. Its pixels are
  only ever seen through \<open>drawImage\<close>, which belongs to the browser.
\<close>

record image =
  src :: string
  img_width :: nat
  img_height :: nat

text \<open>
  The canvas: its size, the RGBA bytes last stored by \<open>putImageData\<close>, and the paths
  stroked on top of them since.
\<close>

datatype path_op =
    Arc real real real real real
  | MoveTo real real
  | LineTo real real

record stroke =
  strokeStyle :: string
  lineWidth :: real
  path :: "path_op list"

record canvas =
  width :: nat
  height :: nat
  bitmap :: "8 word list"
  strokes :: "stroke list"

text \<open>
  The two callbacks handed to \<open>setTimeout\<close> in \<open>connectToIBM\<close>: the outer one (lines 72
  to 81) and the inner one (lines 76 to 80).
\<close>

datatype timer_cb = QueuedCallback | ActiveCallback

text \<open>
  The five \<open>useState\<close> cells and the four refs of the component (lines 36 to 45), and what
  the browser holds for it: the clock in milliseconds, the timers not yet fired (due time
  and callback, in firing order) and the image requests in flight (each with the value of
  \<open>target\<close> its \<open>onload\<close> closure has captured). \<open>requestRef\<close> tells whether an
  animation-frame callback is pending.
\<close>

record state =
  target :: target_id
  quantumMode :: bool
  ibmStatus :: ibm_status
  logs :: "string list"
  ephemeris :: target_rec
  canvasRef :: "canvas option"
  requestRef :: bool
  phaseRef :: real
  imageRef :: "image option"
  now :: nat
  timers :: "(nat \<times> timer_cb) list"
  loading :: "target_id list"

text \<open>
  What the component takes from the browser: the text of the current time
  (\<open>new Date().toLocaleTimeString()\<close>); the function \<open>Math.sin\<close>, of which ECMAScript
  fixes only that it approximates the sine; and the bytes \<open>getImageData(0, 0, w, h)\<close>
  reads back after \<open>drawImage(img, x, y, dw, dh)\<close> has painted on the canvas as it was.
  The four numbers of \<open>drawImage\<close> are \<open>None\<close> when they are not finite.
\<close>

record browser =
  toLocaleTimeString :: "nat \<Rightarrow> string"
  Math_sin :: "real \<Rightarrow> real"
  drawImage :: "image \<Rightarrow> (real \<times> real \<times> real \<times> real) option \<Rightarrow> canvas \<Rightarrow> 8 word list"

definition initial :: state where
  "initial = \<lparr>
     target = MOON,
     quantumMode = False,
     ibmStatus = DISCONNECTED,
     logs = [''>> SYSTEM INITIALIZED'', ''>> TELESCOPE LINK ESTABLISHED''],
     ephemeris = TARGETS MOON,
     canvasRef = None,
     requestRef = False,
     phaseRef = 0,
     imageRef = None,
     now = 0,
     timers = [],
     loading = [] \<rparr>"

section \<open>Logging\<close>

text \<open>\<open>addLog\<close> (lines 48 to 50): the new line in front, then \<open>slice(0, 10)\<close>.\<close>

definition addLog :: "browser \<Rightarrow> string \<Rightarrow> state \<Rightarrow> state" where
  "addLog B msg st =
     st\<lparr>logs := take 10 ((''['' @ toLocaleTimeString B (now st) @ ''] '' @ msg) # logs st)\<rparr>"

section \<open>Timers\<close>

text \<open>
  \<open>setTimeout(cb, d)\<close>: the callback is due \<open>d\<close> milliseconds from now and runs after
  every timer due no later.
\<close>

fun insertTimer :: "nat \<times> timer_cb \<Rightarrow> (nat \<times> timer_cb) list \<Rightarrow> (nat \<times> timer_cb) list" where
  "insertTimer t [] = [t]"
| "insertTimer t (u # us) = (if fst u \<le> fst t then u # insertTimer t us else t # u # us)"

definition setTimeout :: "timer_cb \<Rightarrow> nat \<Rightarrow> state \<Rightarrow> state" where
  "setTimeout cb d st = st\<lparr>timers := insertTimer (now st + d, cb) (timers st)\<rparr>"

section \<open>The filter switch\<close>

text \<open>
  \<open>setQuantumMode(v)\<close>. A value equal to the current one changes nothing. A new value
  gives a new \<open>processFrame\<close> (\<open>useCallback\<close> with \<open>[quantumMode]\<close>, line 165), so the effect
  of lines 167 to 170 runs again: it cancels the pending animation frame and requests one.
\<close>

definition setQuantumMode :: "bool \<Rightarrow> state \<Rightarrow> state" where
  "setQuantumMode v st =
     (if v = quantumMode st then st else st\<lparr>quantumMode := v, requestRef := True\<rparr>)"

text \<open>The button of lines 288 to 289: \<open>setQuantumMode(!quantumMode)\<close>.\<close>

definition toggleQuantumMode :: "state \<Rightarrow> state" where
  "toggleQuantumMode st = setQuantumMode (\<not> quantumMode st) st"

section \<open>The connection handler\<close>

text \<open>\<open>connectToIBM\<close> (lines 53 to 82).\<close>

definition connectToIBM :: "browser \<Rightarrow> state \<Rightarrow> state" where
  "connectToIBM B st =
     (if ibmStatus st = ACTIVE then
        addLog B ''IBM QUANTUM SESSION TERMINATED.'' (st\<lparr>ibmStatus := DISCONNECTED\<rparr>)
      else
        setTimeout QueuedCallback 1500
          (addLog B ''>> HANDSHAKE: IBM QUANTUM CLOUD...'' (st\<lparr>ibmStatus := CONNECTING\<rparr>)))"

text \<open>The bodies of the two timer callbacks.\<close>

fun runTimer :: "browser \<Rightarrow> timer_cb \<Rightarrow> state \<Rightarrow> state" where
  "runTimer B QueuedCallback st =
     setTimeout ActiveCallback 2000
       (addLog B ''>> AUTHENTICATED. JOB QUEUED: ibmq_manila (5 Qubits)''
          (st\<lparr>ibmStatus := QUEUED\<rparr>))"
| "runTimer B ActiveCallback st =
     setQuantumMode True
       (addLog B ''>> QPU ALLOCATED. QUANTUM KERNEL RUNNING.'' (st\<lparr>ibmStatus := ACTIVE\<rparr>))"

text \<open>
  Time passing. \<open>elapse B d st\<close> lets \<open>d\<close> milliseconds go by: while the first timer is due
  within them, the clock moves to its due time and its callback runs (it may set a timer
  of its own); then the clock moves to the end of the interval.
\<close>

fun cb_weight :: "timer_cb \<Rightarrow> nat" where
  "cb_weight QueuedCallback = 2"
| "cb_weight ActiveCallback = 1"

definition timers_weight :: "(nat \<times> timer_cb) list \<Rightarrow> nat" where
  "timers_weight ts = sum_list (map (\<lambda>t. cb_weight (snd t)) ts)"

function elapse :: "browser \<Rightarrow> nat \<Rightarrow> state \<Rightarrow> state" where
  "elapse B d st =
     (case timers st of
        [] \<Rightarrow> st\<lparr>now := now st + d\<rparr>
      | t # rest \<Rightarrow>
          if fst t \<le> now st + d then
            elapse B (now st + d - max (fst t) (now st))
              (runTimer B (snd t) (st\<lparr>timers := rest, now := max (fst t) (now st)\<rparr>))
          else st\<lparr>now := now st + d\<rparr>)"
  by pat_completeness auto
termination
proof (relation "measure (\<lambda>(B, d, st). timers_weight (timers st))")
  show "wf (measure (\<lambda>(B, d, st). timers_weight (timers st)))"
    by simp
next
  fix B :: browser and d :: nat and st :: state and t :: "nat \<times> timer_cb" and rest
  assume ts: "timers st = t # rest"
  let ?st = "st\<lparr>timers := rest, now := max (fst t) (now st)\<rparr>"
  have ins: "timers_weight (insertTimer u us) = cb_weight (snd u) + timers_weight us" for u us
    by (induction us) (simp_all add: timers_weight_def)
  have "timers_weight (timers (runTimer B cb ?st)) < cb_weight cb + timers_weight rest" for cb
    by (cases cb) (simp_all add: setTimeout_def addLog_def setQuantumMode_def ins)
  then have "timers_weight (timers (runTimer B (snd t) ?st)) < timers_weight (timers st)"
    using ts by (simp add: timers_weight_def)
  then show "((B, now st + d - max (fst t) (now st), runTimer B (snd t) ?st), (B, d, st))
             \<in> measure (\<lambda>(B, d, st). timers_weight (timers st))"
    by simp
qed

section \<open>The image loader\<close>

text \<open>
  The effect of lines 85 to 97, which runs after the first render and after every render
  in which \<open>target\<close> has changed: a new image request starts, its \<open>onload\<close> closure keeps
  the current \<open>target\<close>, and a line is logged.
\<close>

definition imageLoaderEffect :: "browser \<Rightarrow> state \<Rightarrow> state" where
  "imageLoaderEffect B st =
     addLog B (''SLEWING TELESCOPE TO '' @ target_name (target st) @ ''...'')
       (st\<lparr>loading := loading st @ [target st]\<rparr>)"

text \<open>
  The buttons of lines 243 to 250: \<open>setTarget(t)\<close>. Setting the value the cell already
  holds renders nothing anew and runs no effect.
\<close>

definition setTarget :: "browser \<Rightarrow> target_id \<Rightarrow> state \<Rightarrow> state" where
  "setTarget B t st = (if t = target st then st else imageLoaderEffect B (st\<lparr>target := t\<rparr>))"

text \<open>
  The \<open>onload\<close> handler of lines 92 to 96, for the \<open>k\<close>-th request in flight, whose image
  arrives with the given dimensions.
\<close>

definition imageOnload :: "browser \<Rightarrow> nat \<Rightarrow> nat \<Rightarrow> nat \<Rightarrow> state \<Rightarrow> state" where
  "imageOnload B k w h st =
     (if k < length (loading st) then
        let t = loading st ! k;
            img = \<lparr>src = url (TARGETS t), img_width = w, img_height = h\<rparr>
        in addLog B (''TRACKING LOCK: '' @ target_name t)
             (st\<lparr>imageRef := Some img, ephemeris := TARGETS t,
                 loading := take k (loading st) @ drop (Suc k) (loading st)\<rparr>)
      else st)"

text \<open>
  The \<open>k\<close>-th request in flight fails. The image has no \<open>onerror\<close> handler (lines 86 to
  96 set \<open>crossOrigin\<close>, \<open>src\<close> and \<open>onload\<close> only), so no code of the component runs: the
  request is gone and nothing else happens.
\<close>

definition imageError :: "nat \<Rightarrow> state \<Rightarrow> state" where
  "imageError k st =
     (if k < length (loading st) then
        st\<lparr>loading := take k (loading st) @ drop (Suc k) (loading st)\<rparr>
      else st)"

section \<open>Numbers\<close>

text \<open>
  A JavaScript number is an IEEE 754 double. The finite doubles are real numbers and are
  kept as reals here. Each of \<open>+\<close>, \<open>-\<close>, \<open>*\<close> and \<open>/\<close> gives the exact result rounded to
  the nearest double, a tie going to the double with the even significand, and a decimal
  literal such as \<open>0.15\<close> denotes the double nearest to it. \<open>binary64\<close> is that rounding:
  with \<open>e\<close> the binary exponent of \<open>x\<close>, and not below -1022, \<open>x\<close> is rounded to a multiple
  of 2 to the power \<open>e - 52\<close>. Overflow to infinity is left out: it starts at 2 to the
  power 1024, and the numbers this component computes from bytes, offsets and the phase
  stay far below (the phase stops growing once 0.15 is less than half the spacing of the
  doubles around it). Integers below 2 to the power 53, such as offsets, bytes and the
  dimensions of canvas and image, are doubles themselves.
\<close>

definition tiesEven :: "real \<Rightarrow> int" where
  "tiesEven y =
     (let f = \<lfloor>y\<rfloor>
      in if y < of_int f + 1 / 2 then f
         else if of_int f + 1 / 2 < y then f + 1
         else if even f then f else f + 1)"

definition binary64 :: "real \<Rightarrow> real" where
  "binary64 x =
     (if x = 0 then 0
      else let e = max \<lfloor>log 2 \<bar>x\<bar>\<rfloor> (- 1022);
               ulp = 2 powr (of_int e - 52)
           in of_int (tiesEven (x / ulp)) * ulp)"

section \<open>The frame processor\<close>

text \<open>
  The pixel buffer \<open>frame.data\<close> is a \<open>Uint8ClampedArray\<close>. Storing a number in it converts
  the number as ECMAScript's \<open>ToUint8Clamp\<close> does: it is clamped to the range from 0 to
  255 and rounded to the nearest integer, a tie going to the even one. (A \<open>NaN\<close> would be
  stored as 0; the numbers stored here are finite.)
\<close>

definition toUint8Clamp :: "real \<Rightarrow> 8 word" where
  "toUint8Clamp x =
     (let clamped = min 255 (max 0 x);
          f = \<lfloor>clamped\<rfloor>
      in word_of_int
           (if clamped < of_int f + 0.5 then f
            else if of_int f + 0.5 < clamped then f + 1
            else if even f then f else f + 1))"

text \<open>
  Reading \<open>data[j]\<close> as a number. Past the end the source reads \<open>undefined\<close>; the only
  use of such a value is the store at the same index \<open>j\<close>, which a typed array ignores,
  so the value given here for that case is never seen.
\<close>

definition byteAt :: "8 word list \<Rightarrow> nat \<Rightarrow> real" where
  "byteAt data j = (if j < length data then real (unat (data ! j)) else 0)"

text \<open>
  The wave of line 134, at byte offset \<open>i\<close>: \<open>Math.sin((i * 0.01) + phase) * 20\<close>, every
  operation in doubles.
\<close>

definition noiseAt :: "browser \<Rightarrow> nat \<Rightarrow> real \<Rightarrow> real" where
  "noiseAt B i phase =
     binary64 (Math_sin B (binary64 (binary64 (real i * binary64 0.01) + phase)) * 20)"

text \<open>
  The loop of lines 126 to 151, from offset \<open>i\<close> on, in steps of four bytes. A store past
  the end of the buffer does nothing, as \<open>list_update\<close> does.
\<close>

function pixelShader :: "browser \<Rightarrow> bool \<Rightarrow> real \<Rightarrow> nat \<Rightarrow> 8 word list \<Rightarrow> 8 word list" where
  "pixelShader B qm phase i data =
     (if i < length data then
        let r = byteAt data i;
            g = byteAt data (i + 1);
            b = byteAt data (i + 2);
            noise = noiseAt B i phase
        in if qm then
             pixelShader B qm phase (i + 4)
               (data[i := toUint8Clamp (min 255 (binary64 (r + 10))),
                     i + 1 := toUint8Clamp (min 255 (binary64 (binary64 (g + 40) - noise))),
                     i + 2 := toUint8Clamp (min 255 (binary64 (binary64 (b + 50) - noise)))])
           else
             pixelShader B qm phase (i + 4)
               (data[i := toUint8Clamp (max 0 (binary64 (r + noise))),
                     i + 1 := toUint8Clamp (max 0 (binary64 (g + noise))),
                     i + 2 := toUint8Clamp (max 0 (binary64 (b + noise)))])
      else data)"
  by pat_completeness auto
termination
  by (relation "measure (\<lambda>(B, qm, phase, i, data). length data - i)") auto

text \<open>The reticle of lines 156 to 162, on a canvas \<open>w\<close> wide and \<open>h\<close> high.\<close>

definition hud :: "bool \<Rightarrow> real \<Rightarrow> real \<Rightarrow> stroke" where
  "hud qm w h =
     (let cx = binary64 (w / 2);
          cy = binary64 (h / 2)
      in \<lparr>strokeStyle = (if qm then ''#00ffff'' else ''rgba(0, 255, 100, 0.5)''),
          lineWidth = 2,
          path = [Arc cx cy 50 0 (binary64 (binary64 pi * 2)),
                  MoveTo (binary64 (cx - 20)) cy, LineTo (binary64 (cx + 20)) cy,
                  MoveTo cx (binary64 (cy - 20)), LineTo cx (binary64 (cy + 20))]\<rparr>)"

text \<open>
  Lines 105 to 119 of \<open>processFrame\<close>: the image is drawn centred, scaled to cover the
  canvas, and the pixels are read back. When the image is 0 wide or 0 high, a division
  by zero makes \<open>scale\<close> infinite or \<open>NaN\<close>, and then none of \<open>x\<close>, \<open>y\<close> and the two
  sizes is finite.
\<close>

definition readFrame :: "browser \<Rightarrow> canvas \<Rightarrow> image \<Rightarrow> 8 word list" where
  "readFrame B cv img =
     (if img_width img = 0 \<or> img_height img = 0 then drawImage B img None cv
      else
        let w = real (width cv);
            h = real (height cv);
            scale = max (binary64 (w / real (img_width img)))
                        (binary64 (h / real (img_height img)));
            x = binary64 (binary64 (w / 2) - binary64 (binary64 (real (img_width img) / 2) * scale));
            y = binary64 (binary64 (h / 2) - binary64 (binary64 (real (img_height img) / 2) * scale))
        in drawImage B img
             (Some (x, y, binary64 (real (img_width img) * scale),
                    binary64 (real (img_height img) * scale))) cv)"

text \<open>\<open>processFrame\<close> (lines 100 to 165).\<close>

definition processFrame :: "browser \<Rightarrow> state \<Rightarrow> state" where
  "processFrame B st =
     (case canvasRef st of
        None \<Rightarrow> st
      | Some cv \<Rightarrow>
          (case imageRef st of
             None \<Rightarrow> st
           | Some img \<Rightarrow>
               let data = readFrame B cv img;
                   phase = binary64 (phaseRef st + binary64 0.15);
                   data' = pixelShader B (quantumMode st) phase 0 data
               in st\<lparr>phaseRef := phase,
                      canvasRef := Some (cv\<lparr>bitmap := data',
                                            strokes := [hud (quantumMode st) (real (width cv))
                                                          (real (height cv))]\<rparr>),
                      requestRef := True\<rparr>))"

text \<open>The browser runs the pending animation-frame callback, if there is one.\<close>

definition animationFrame :: "browser \<Rightarrow> state \<Rightarrow> state" where
  "animationFrame B st =
     (if requestRef st then processFrame B (st\<lparr>requestRef := False\<rparr>) else st)"

section \<open>The component as a machine\<close>

text \<open>
  After the first render the canvas of lines 232 to 237 exists, 900 by 600 and blank, and
  the two effects have run in the order of the source.
\<close>

definition mount :: "browser \<Rightarrow> state" where
  "mount B =
     (imageLoaderEffect B
        (initial\<lparr>canvasRef :=
           Some \<lparr>width = 900, height = 600,
                 bitmap = replicate (4 * 900 * 600) 0, strokes = []\<rparr>\<rparr>))
     \<lparr>requestRef := True\<rparr>"

datatype event =
    ClickConnect
  | ClickToggle
  | ClickTarget target_id
  | ImageLoaded nat nat nat
  | ImageFailed nat
  | AnimationFrame
  | Elapse nat

fun step :: "browser \<Rightarrow> state \<Rightarrow> event \<Rightarrow> state" where
  "step B st ClickConnect = connectToIBM B st"
| "step B st ClickToggle = toggleQuantumMode st"
| "step B st (ClickTarget t) = setTarget B t st"
| "step B st (ImageLoaded k w h) = imageOnload B k w h st"
| "step B st (ImageFailed k) = imageError k st"
| "step B st AnimationFrame = animationFrame B st"
| "step B st (Elapse d) = elapse B d st"

definition run :: "browser \<Rightarrow> event list \<Rightarrow> state" where
  "run B evs = foldl (step B) (mount B) evs"

section \<open>Auxiliary notions\<close>

text \<open>
  What the loop leaves at offset \<open>j\<close> of a buffer, read off the six assignments: the
  channel is \<open>j mod 4\<close>, the pixel starts at \<open>j - j mod 4\<close>, and the fourth byte of a
  pixel is not assigned. It is the closed form the loop is proved equal to.
\<close>

definition shaded :: "browser \<Rightarrow> bool \<Rightarrow> real \<Rightarrow> 8 word list \<Rightarrow> nat \<Rightarrow> 8 word" where
  "shaded B qm phase data j =
     (let c = j mod 4; v = real (unat (data ! j)); n = noiseAt B (j - c) phase in
      if c = 3 then data ! j
      else if qm then
        (if c = 0 then toUint8Clamp (min 255 (binary64 (v + 10)))
         else if c = 1 then toUint8Clamp (min 255 (binary64 (binary64 (v + 40) - n)))
         else toUint8Clamp (min 255 (binary64 (binary64 (v + 50) - n))))
      else toUint8Clamp (max 0 (binary64 (v + n))))"

text \<open>
  A byte \<open>w\<close> is the real number \<open>v\<close> rounded to the nearest integer, a tie going to the
  even one.
\<close>

definition roundedTo :: "8 word \<Rightarrow> real \<Rightarrow> bool" where
  "roundedTo w v \<longleftrightarrow>
     \<bar>real (unat w) - v\<bar> \<le> 1 / 2 \<and> (\<bar>real (unat w) - v\<bar> = 1 / 2 \<longrightarrow> even (unat w))"

text \<open>
  A picture for examples: opaque black on the whole canvas. In \<open>blackBrowser\<close> every image
  is that picture, the clock always reads noon, and \<open>Math.sin\<close> is the sine rounded to the
  nearest double.
\<close>

definition blackFrame :: "nat \<Rightarrow> nat \<Rightarrow> 8 word list" where
  "blackFrame w h = map (\<lambda>j. if j mod 4 = 3 then 255 else 0) [0..<4 * w * h]"

definition blackBrowser :: browser where
  "blackBrowser = \<lparr>
     toLocaleTimeString = (\<lambda>t. ''12:00:00''),
     Math_sin = (\<lambda>x. binary64 (sin x)),
     drawImage = (\<lambda>img args cv. blackFrame (width cv) (height cv)) \<rparr>"

text \<open>The phase of the first frame: the accumulator starts at 0.\<close>

definition firstPhase :: real where
  "firstPhase = binary64 (0 + binary64 0.15)"

text \<open>
  Two states of the mounted component in that browser: the first image has loaded, 600 by
  600; and the same after one click on the filter button. The next animation frame finds
  the filter off in the first and on in the second.
\<close>

definition stateOff :: state where
  "stateOff = run blackBrowser [ImageLoaded 0 600 600]"

definition stateOn :: state where
  "stateOn = run blackBrowser [ImageLoaded 0 600 600, ClickToggle]"

text \<open>
  A session brought to \<open>ACTIVE\<close>: one click on the connect button, then 1.5 seconds and
  2 seconds more.
\<close>

definition stateActive :: state where
  "stateActive = run blackBrowser [ClickConnect, Elapse 1500, Elapse 2000]"

text \<open>
  Jupiter is selected and its image request, the second in flight, fails.
\<close>

definition stateJupiterFailed :: state where
  "stateJupiterFailed = run blackBrowser [ClickTarget JUPITER, ImageFailed 1]"


section \<open>Properties\<close>

text \<open>
  The equations of the two loops mention themselves on the right; they are unfolded by
  hand, one turn at a time.
\<close>

declare pixelShader.simps [simp del]
declare elapse.simps [simp del]

subsection \<open>Bounds on the sine\<close>

lemma sin_lower:
  assumes "0 \<le> x" shows "x - x ^ 3 / 6 \<le> sin (x::real)"
proof -
  have "\<bar>sin x - (\<Sum>m<3. sin_coeff m * x ^ m)\<bar> \<le> inverse (fact 3) * \<bar>x\<bar> ^ 3"
    by (rule Maclaurin_sin_bound)
  moreover have "(\<Sum>m<3. sin_coeff m * x ^ m) = x"
    by (simp add: sin_coeff_def lessThan_nat_numeral eval_nat_numeral)
  moreover have "inverse (fact 3) * \<bar>x\<bar> ^ 3 = x ^ 3 / 6"
    using assms by (simp add: fact_numeral eval_nat_numeral)
  ultimately have "\<bar>sin x - x\<bar> \<le> x ^ 3 / 6" by simp
  then show ?thesis by linarith
qed

lemma sin_upper:
  assumes "0 \<le> x" shows "sin (x::real) \<le> x - x ^ 3 / 6 + x ^ 5 / 120"
proof -
  have "\<bar>sin x - (\<Sum>m<5. sin_coeff m * x ^ m)\<bar> \<le> inverse (fact 5) * \<bar>x\<bar> ^ 5"
    by (rule Maclaurin_sin_bound)
  moreover have "(\<Sum>m<5. g m) = g 0 + g 1 + g 2 + g 3 + g 4" for g :: "nat \<Rightarrow> real"
    by (simp add: eval_nat_numeral)
  then have "(\<Sum>m<5. sin_coeff m * x ^ m) = x - x ^ 3 / 6"
    by (simp add: sin_coeff_def fact_numeral)
  moreover have "inverse (fact 5) * \<bar>x\<bar> ^ 5 = x ^ 5 / 120"
    using assms by (simp add: fact_numeral eval_nat_numeral)
  ultimately have "\<bar>sin x - (x - x ^ 3 / 6)\<bar> \<le> x ^ 5 / 120" by simp
  then show ?thesis by linarith
qed

lemma sin_between:
  assumes "0 \<le> a" "a \<le> x" "x \<le> b"
  shows "a - b ^ 3 / 6 \<le> sin (x::real)" and "sin x \<le> b - a ^ 3 / 6 + b ^ 5 / 120"
proof -
  have x0: "0 \<le> x" using assms by simp
  have p3: "a ^ 3 \<le> x ^ 3" "x ^ 3 \<le> b ^ 3" using assms x0 by (simp_all add: power_mono)
  have p5: "x ^ 5 \<le> b ^ 5" using assms x0 by (simp add: power_mono)
  show "a - b ^ 3 / 6 \<le> sin x" using sin_lower [OF x0] assms p3 by linarith
  show "sin x \<le> b - a ^ 3 / 6 + b ^ 5 / 120" using sin_upper [OF x0] assms p3 p5 by linarith
qed

subsection \<open>Rounding to a double\<close>

lemma tiesEven_of_int [simp]: "tiesEven (of_int k) = k"
  by (simp add: tiesEven_def)

lemma tiesEven_near: "\<bar>of_int (tiesEven y) - y\<bar> \<le> 1 / 2"
proof -
  have "of_int \<lfloor>y\<rfloor> \<le> y" "y < of_int \<lfloor>y\<rfloor> + 1" by simp_all
  then show ?thesis by (auto simp: tiesEven_def Let_def)
qed

lemma binary64_zero [simp]: "binary64 0 = 0"
  by (simp add: binary64_def)

lemma binary64_nat:
  assumes "n < 2 ^ 53"
  shows "binary64 (real n) = real n"
proof (cases "n = 0")
  case True
  then show ?thesis by simp
next
  case False
  define e where "e = \<lfloor>log 2 (real n)\<rfloor>"
  have n1: "1 \<le> real n" using False by simp
  have "0 \<le> log 2 (real n)" using n1 by simp
  then have e0: "0 \<le> e" by (simp add: e_def)
  have "real n < 2 ^ 53" using assms by (metis of_nat_less_iff of_nat_numeral of_nat_power)
  then have "log 2 (real n) < 53"
    using n1 by (simp add: log_less_iff powr_realpow [symmetric])
  then have e52: "e \<le> 52" unfolding e_def by linarith
  define m where "m = nat (52 - e)"
  have m: "real_of_int e - 52 = - real m" using e52 by (simp add: m_def)
  have u: "2 powr (real_of_int e - 52) = 1 / 2 ^ m"
    unfolding m by (simp add: powr_minus powr_realpow inverse_eq_divide)
  have q: "real n / (1 / 2 ^ m) = of_int (int (n * 2 ^ m))" by simp
  have "binary64 (real n) = of_int (tiesEven (real n / (1 / 2 ^ m))) * (1 / 2 ^ m)"
    using False e0 by (simp add: binary64_def Let_def e_def [symmetric] u max_def)
  also have "\<dots> = real n" unfolding q tiesEven_of_int by simp
  finally show ?thesis .
qed

lemma binary64_near:
  assumes "\<bar>x\<bar> \<le> 512"
  shows "\<bar>binary64 x - x\<bar> \<le> 1 / 2 ^ 44"
proof (cases "x = 0")
  case True
  then show ?thesis by simp
next
  case False
  define e where "e = max \<lfloor>log 2 \<bar>x\<bar>\<rfloor> (- 1022)"
  define u :: real where "u = 2 powr (of_int e - 52)"
  have "log 2 \<bar>x\<bar> \<le> log 2 512" using assms False by simp
  moreover have "log 2 512 = 9"
    using log_pow_cancel [of 2 9] by simp
  ultimately have "\<lfloor>log 2 \<bar>x\<bar>\<rfloor> \<le> 9" by linarith
  then have e9: "e \<le> 9" by (simp add: e_def)
  have upos: "0 < u" by (simp add: u_def)
  have "u \<le> 2 powr (- 43)" unfolding u_def using e9 by (intro powr_mono) simp_all
  also have "\<dots> = 1 / 2 ^ 43" by (simp add: powr_minus powr_realpow inverse_eq_divide)
  finally have u43: "u \<le> 1 / 2 ^ 43" .
  have b: "binary64 x = of_int (tiesEven (x / u)) * u"
    using False by (simp add: binary64_def Let_def e_def u_def)
  have "binary64 x - x = (of_int (tiesEven (x / u)) - x / u) * u"
    using upos by (simp add: b field_simps)
  then have "\<bar>binary64 x - x\<bar> = \<bar>of_int (tiesEven (x / u)) - x / u\<bar> * u"
    using upos by (simp add: abs_mult)
  also have "\<dots> \<le> (1 / 2) * u"
    using tiesEven_near [of "x / u"] upos by (intro mult_right_mono) simp_all
  also have "\<dots> \<le> (1 / 2) * (1 / 2 ^ 43)" using u43 by simp
  also have "\<dots> = 1 / 2 ^ 44" by simp
  finally show ?thesis .
qed

lemma binary64_within:
  assumes "\<bar>x\<bar> \<le> 512"
  shows "x - 1 / 10 ^ 12 \<le> binary64 x" and "binary64 x \<le> x + 1 / 10 ^ 12"
proof -
  have "(1::real) / 2 ^ 44 \<le> 1 / 10 ^ 12" by simp
  then have "\<bar>binary64 x - x\<bar> \<le> 1 / 10 ^ 12"
    using binary64_near [OF assms] by linarith
  then show "x - 1 / 10 ^ 12 \<le> binary64 x" and "binary64 x \<le> x + 1 / 10 ^ 12"
    by linarith+
qed

lemma binary64_byte_plus:
  "binary64 (real (unat (w :: 8 word)) + real k) = real (unat w + k)" if "k \<le> 255"
proof -
  have "unat w < 2 ^ 8" using unsigned_less [of w, where ?'a = nat] by simp
  then have "unat w + k < 2 ^ 53" using that by simp
  then show ?thesis using binary64_nat [of "unat w + k"] by (simp del: of_nat_unat)
qed

subsection \<open>The pixel loop in closed form\<close>

lemma pixelShader_length [simp]: "length (pixelShader B qm phase i data) = length data"
  by (induction B qm phase i data rule: pixelShader.induct)
     (subst pixelShader.simps, simp add: Let_def)

lemma pixelShader_nth:
  "i mod 4 = 0 \<Longrightarrow> j < length data \<Longrightarrow>
   pixelShader B qm phase i data ! j = (if j < i then data ! j else shaded B qm phase data j)"
proof (induction B qm phase i data rule: pixelShader.induct)
  case (1 B qm phase i data)
  show ?case
  proof (cases "i < length data")
    case False
    with "1.prems" show ?thesis by (subst pixelShader.simps) simp
  next
    case True
    have i4: "(i + 4) mod 4 = 0" using "1.prems" by presburger
    define a where "a = (if qm then toUint8Clamp (min 255 (binary64 (byteAt data i + 10)))
                               else toUint8Clamp (max 0 (binary64 (byteAt data i + noiseAt B i phase))))"
    define b where "b = (if qm then toUint8Clamp (min 255 (binary64 (binary64 (byteAt data (i + 1) + 40) - noiseAt B i phase)))
                 else toUint8Clamp (max 0 (binary64 (byteAt data (i + 1) + noiseAt B i phase))))"
    define c where "c = (if qm then toUint8Clamp (min 255 (binary64 (binary64 (byteAt data (i + 2) + 50) - noiseAt B i phase)))
                 else toUint8Clamp (max 0 (binary64 (byteAt data (i + 2) + noiseAt B i phase))))"
    define data' where "data' = data[i := a, i + 1 := b, i + 2 := c]"
    have unfold: "pixelShader B qm phase i data = pixelShader B qm phase (i + 4) data'"
      using True by (subst pixelShader.simps) (simp add: Let_def data'_def a_def b_def c_def)
    have len: "length data' = length data" by (simp add: data'_def)
    have IH: "pixelShader B qm phase (i + 4) data' ! j =
                (if j < i + 4 then data' ! j else shaded B qm phase data' j)"
    proof (cases qm)
      case True
      show ?thesis
        using "1.IH"(1) [OF \<open>i < length data\<close> refl refl refl refl True i4] "1.prems"(2) True
        by (simp add: data'_def a_def b_def c_def)
    next
      case False
      show ?thesis
        using "1.IH"(2) [OF \<open>i < length data\<close> refl refl refl refl False i4] "1.prems"(2) False
        by (simp add: data'_def a_def b_def c_def)
    qed
    consider "j < i" | "j = i" | "j = i + 1" | "j = i + 2" | "j = i + 3" | "i + 4 \<le> j"
      by linarith
    then show ?thesis
    proof cases
      case 1
      then show ?thesis using IH unfold "1.prems"(2) by (simp add: data'_def)
    next
      case 2
      then have "j mod 4 = 0" using "1.prems"(1) by simp
      then show ?thesis using 2 IH unfold "1.prems"(2)
        by (simp add: data'_def a_def b_def c_def shaded_def byteAt_def)
    next
      case 3
      then have "j mod 4 = 1" "j - 1 = i" using "1.prems"(1) by presburger+
      then show ?thesis using 3 IH unfold "1.prems"(2)
        by (simp add: data'_def a_def b_def c_def shaded_def byteAt_def)
    next
      case 4
      then have "j mod 4 = 2" "j - 2 = i" using "1.prems"(1) by presburger+
      then show ?thesis using 4 IH unfold "1.prems"(2)
        by (simp add: data'_def a_def b_def c_def shaded_def byteAt_def)
    next
      case 5
      then have "j mod 4 = 3" using "1.prems"(1) by presburger
      then show ?thesis using 5 IH unfold "1.prems"(2)
        by (simp add: data'_def shaded_def)
    next
      case 6
      then have "data' ! j = data ! j" by (simp add: data'_def)
      then have "shaded B qm phase data' j = shaded B qm phase data j"
        by (simp add: shaded_def Let_def)
      then show ?thesis using 6 IH unfold by simp
    qed
  qed
qed

subsection \<open>Storing a number in the pixel buffer\<close>

lemma uint_byte: "0 \<le> k \<Longrightarrow> k \<le> 255 \<Longrightarrow> uint (word_of_int k :: 8 word) = k"
  by (simp add: uint_word_of_int take_bit_eq_mod)

lemma toUint8Clamp_cases:
  fixes x :: real
  defines "c \<equiv> min 255 (max 0 x)"
  obtains k where "toUint8Clamp x = word_of_int k" "0 \<le> k" "k \<le> 255"
    "\<bar>real_of_int k - c\<bar> \<le> 1 / 2" "\<bar>real_of_int k - c\<bar> = 1 / 2 \<longrightarrow> even k"
proof -
  define f where "f = \<lfloor>c\<rfloor>"
  define k where "k = (if c < of_int f + 0.5 then f
            else if of_int f + 0.5 < c then f + 1
            else if even f then f else f + 1)"
  have c: "0 \<le> c" "c \<le> 255" by (simp_all add: c_def)
  have f: "of_int f \<le> c" "c < of_int f + 1" by (simp_all add: f_def)
  have f0: "0 \<le> f" using c by (simp add: f_def)
  have f255: "f \<le> 255" using c unfolding f_def by (simp add: floor_le_iff)
  have eq: "toUint8Clamp x = word_of_int k"
    by (simp add: toUint8Clamp_def Let_def c_def [symmetric] f_def [symmetric] k_def)
  have top: "f = 255 \<Longrightarrow> k = f" using c f by (simp add: k_def)
  have k0: "0 \<le> k" using f0 by (simp add: k_def)
  have k255: "k \<le> 255" using f255 top by (cases "f = 255") (auto simp: k_def)
  have d: "\<bar>real_of_int k - c\<bar> \<le> 1 / 2" using f by (auto simp: k_def)
  have e: "\<bar>real_of_int k - c\<bar> = 1 / 2 \<longrightarrow> even k" using f by (auto simp: k_def)
  show thesis using that [OF eq k0 k255 d e] .
qed

lemma unat_byte: "0 \<le> k \<Longrightarrow> k \<le> 255 \<Longrightarrow> unat (word_of_int k :: 8 word) = nat k"
  by (simp add: unat_eq_nat_uint uint_byte)

lemma toUint8Clamp_rounded: "roundedTo (toUint8Clamp x) (min 255 (max 0 x))"
proof -
  obtain k where k: "toUint8Clamp x = word_of_int k" "0 \<le> k" "k \<le> 255"
    "\<bar>real_of_int k - min 255 (max 0 x)\<bar> \<le> 1 / 2"
    "\<bar>real_of_int k - min 255 (max 0 x)\<bar> = 1 / 2 \<longrightarrow> even k"
    by (rule toUint8Clamp_cases)
  have "real (unat (toUint8Clamp x)) = real_of_int k" "even (unat (toUint8Clamp x)) = even k"
    using k(1-3) by (simp_all add: unat_byte even_nat_iff del: of_nat_unat)
  then show ?thesis
    using k(4,5) by (simp add: roundedTo_def del: of_nat_unat)
qed

lemma toUint8Clamp_of_int:
  "0 \<le> k \<Longrightarrow> k \<le> 255 \<Longrightarrow> toUint8Clamp (of_int k) = word_of_int k"
  by (simp add: toUint8Clamp_def Let_def min_def max_def)

lemma toUint8Clamp_of_nat: "n \<le> 255 \<Longrightarrow> unat (toUint8Clamp (real n)) = n"
  using toUint8Clamp_of_int [of "int n"] unat_byte [of "int n"] by simp

lemma toUint8Clamp_near:
  assumes "real n - 1 / 2 < x" "x < real n + 1 / 2" "0 \<le> x" "x \<le> 255"
  shows "unat (toUint8Clamp x) = n"
proof -
  have c: "min 255 (max 0 x) = x" using assms by simp
  have n: "int n \<le> 255" using assms by linarith
  have "\<lfloor>x\<rfloor> = int n \<or> \<lfloor>x\<rfloor> = int n - 1" using assms by linarith
  then have "toUint8Clamp x = word_of_int (int n)"
  proof
    assume "\<lfloor>x\<rfloor> = int n"
    then show ?thesis using assms by (simp add: toUint8Clamp_def Let_def c)
  next
    assume "\<lfloor>x\<rfloor> = int n - 1"
    then show ?thesis using assms by (simp add: toUint8Clamp_def Let_def c)
  qed
  then show ?thesis using n unat_byte [of "int n"] by simp
qed

subsection \<open>One frame\<close>

lemma processFrame_canvas:
  assumes "canvasRef st = Some cv" "imageRef st = Some img"
  shows "canvasRef (processFrame B st) =
           Some (cv\<lparr>bitmap := pixelShader B (quantumMode st) (binary64 (phaseRef st + binary64 0.15)) 0
                                (readFrame B cv img),
                    strokes := [hud (quantumMode st) (real (width cv)) (real (height cv))]\<rparr>)"
    and "phaseRef (processFrame B st) = binary64 (phaseRef st + binary64 0.15)"
  using assms by (simp_all add: processFrame_def Let_def)

lemma processFrame_byte:
  assumes "canvasRef st = Some cv" "imageRef st = Some img" "j < length (readFrame B cv img)"
  shows "bitmap (the (canvasRef (processFrame B st))) ! j =
           shaded B (quantumMode st) (binary64 (phaseRef st + binary64 0.15)) (readFrame B cv img) j"
  using assms by (simp add: processFrame_canvas pixelShader_nth)

subsection \<open>The example states\<close>

lemma blackFrame_length [simp]: "length (blackFrame w h) = 4 * w * h"
  by (simp add: blackFrame_def)

lemma blackFrame_nth: "j < 4 * w * h \<Longrightarrow> blackFrame w h ! j = (if j mod 4 = 3 then 255 else 0)"
  by (simp add: blackFrame_def)

lemma readFrame_black [simp]: "readFrame blackBrowser cv img = blackFrame (width cv) (height cv)"
  by (simp add: readFrame_def blackBrowser_def Let_def)

lemma stateOff_fields:
  "canvasRef stateOff = Some \<lparr>width = 900, height = 600, bitmap = replicate (4 * 900 * 600) 0, strokes = []\<rparr>"
  "imageRef stateOff = Some \<lparr>src = url (TARGETS MOON), img_width = 600, img_height = 600\<rparr>"
  "\<not> quantumMode stateOff"
  "phaseRef stateOff = 0"
  by (simp_all add: stateOff_def run_def mount_def initial_def imageLoaderEffect_def addLog_def
        imageOnload_def)

lemma stateOn_fields:
  "canvasRef stateOn = Some \<lparr>width = 900, height = 600, bitmap = replicate (4 * 900 * 600) 0, strokes = []\<rparr>"
  "imageRef stateOn = Some \<lparr>src = url (TARGETS MOON), img_width = 600, img_height = 600\<rparr>"
  "quantumMode stateOn"
  "phaseRef stateOn = 0"
  by (simp_all add: stateOn_def run_def mount_def initial_def imageLoaderEffect_def addLog_def
        imageOnload_def toggleQuantumMode_def setQuantumMode_def)

lemma stateActive_fields:
  "ibmStatus stateActive = ACTIVE" "quantumMode stateActive" "timers stateActive = []"
  "now stateActive = 3500"
  by (simp_all add: stateActive_def run_def mount_def initial_def imageLoaderEffect_def addLog_def
        connectToIBM_def setTimeout_def setQuantumMode_def elapse.simps)


lemma Math_sin_black: "Math_sin blackBrowser x = binary64 (sin x)"
  by (simp add: blackBrowser_def)

lemma firstPhase_bounds: "0.15 - 2 / 10 ^ 12 \<le> firstPhase" "firstPhase \<le> 0.15 + 2 / 10 ^ 12"
proof -
  define e :: real where "e = 1 / 10 ^ 12"
  define c where "c = binary64 0.15"
  have c: "3 / 20 - e \<le> c" "c \<le> 3 / 20 + e"
    unfolding c_def e_def using binary64_within [of "0.15"] by simp_all
  have e: "0 \<le> e" "e \<le> 1" by (simp_all add: e_def)
  have "\<bar>0 + c\<bar> \<le> 512" using c e unfolding abs_le_iff by linarith
  from binary64_within [OF this, folded e_def]
  have "0 + c - e \<le> firstPhase" "firstPhase \<le> 0 + c + e"
    by (simp_all add: firstPhase_def c_def)
  then have "3 / 20 - 2 * e \<le> firstPhase" "firstPhase \<le> 3 / 20 + 2 * e"
    using c by linarith+
  then show "0.15 - 2 / 10 ^ 12 \<le> firstPhase" "firstPhase \<le> 0.15 + 2 / 10 ^ 12"
    by (simp_all add: e_def)
qed

lemma noise_black:
  assumes i: "i \<le> 4" and a: "a = real i * 0.01 + 0.15"
  shows "20 * ((a - 1 / 10 ^ 4) - (a + 1 / 10 ^ 4) ^ 3 / 6) - 1 / 10 ^ 4
           \<le> noiseAt blackBrowser i firstPhase"
    and "noiseAt blackBrowser i firstPhase
           \<le> 20 * ((a + 1 / 10 ^ 4) - (a - 1 / 10 ^ 4) ^ 3 / 6 + (a + 1 / 10 ^ 4) ^ 5 / 120) + 1 / 10 ^ 4"
proof -
  define e :: real where "e = 1 / 10 ^ 12"
  define d :: real where "d = 1 / 10 ^ 4"
  define c where "c = binary64 0.01"
  define m where "m = binary64 (real i * c)"
  define A where "A = binary64 (m + firstPhase)"
  define t where "t = sin A"
  define s where "s = binary64 t"
  define h :: real where "h = 1 / 100"
  define q :: real where "q = 15 / 100"
  define lo where "lo = (a - d) - (a + d) ^ 3 / 6"
  define hi where "hi = (a + d) - (a - d) ^ 3 / 6 + (a + d) ^ 5 / 120"
  have e: "0 \<le> e" "30 * e \<le> d" "d \<le> q" "q \<le> 1" "0 \<le> h" "h \<le> 1" "e \<le> 1"
    by (simp_all add: e_def d_def q_def h_def)
  have ri: "0 \<le> real i" "real i \<le> 4" using i by simp_all
  have c: "h - e \<le> c" "c \<le> h + e"
    unfolding c_def e_def h_def using binary64_within [of "0.01"] by simp_all
  have "real i * (h - e) \<le> real i * c" "real i * c \<le> real i * (h + e)"
    by (rule mult_left_mono [OF c(1) ri(1)], rule mult_left_mono [OF c(2) ri(1)])
  moreover have "real i * e \<le> 4 * e" "real i * h \<le> 4 * h" "0 \<le> real i * h"
    using ri e by (simp_all add: mult_right_mono)
  ultimately have ic: "real i * h - 4 * e \<le> real i * c" "real i * c \<le> real i * h + 4 * e"
    by (simp_all add: algebra_simps)
  have ih: "real i * h \<le> 4" "0 \<le> real i * h"
    using \<open>real i * h \<le> 4 * h\<close> \<open>0 \<le> real i * h\<close> e by linarith+
  have "\<bar>real i * c\<bar> \<le> 512" using ic ih e unfolding abs_le_iff by linarith
  from binary64_within [OF this, folded e_def m_def]
  have m: "real i * h - 5 * e \<le> m" "m \<le> real i * h + 5 * e"
    using ic by linarith+
  have fp: "q - 2 * e \<le> firstPhase" "firstPhase \<le> q + 2 * e"
    using firstPhase_bounds by (simp_all add: q_def e_def)
  have "\<bar>m + firstPhase\<bar> \<le> 512" using m fp ih e unfolding abs_le_iff by linarith
  from binary64_within [OF this, folded e_def A_def]
  have "real i * h + q - 8 * e \<le> A" "A \<le> real i * h + q + 8 * e"
    using m fp by linarith+
  moreover have "a = real i * h + q" by (simp add: a h_def q_def)
  ultimately have A: "a - d \<le> A" "A \<le> a + d" using e by linarith+
  have a0: "0 \<le> a - d" using \<open>a = real i * h + q\<close> ih e by linarith
  have sA: "lo \<le> t" "t \<le> hi"
    unfolding lo_def hi_def t_def using sin_between [OF a0 A] by simp_all
  have sb: "- 1 \<le> t" "t \<le> 1" by (simp_all add: t_def)
  have "\<bar>t\<bar> \<le> 512" using sb unfolding abs_le_iff by linarith
  from binary64_within [OF this, folded e_def s_def]
  have s: "t - e \<le> s" "s \<le> t + e" .
  have "\<bar>s * 20\<bar> \<le> 512" using s sb e unfolding abs_le_iff by linarith
  from binary64_within [OF this, folded e_def]
  have n: "s * 20 - e \<le> binary64 (s * 20)" "binary64 (s * 20) \<le> s * 20 + e" .
  have N: "noiseAt blackBrowser i firstPhase = binary64 (s * 20)"
    by (simp add: noiseAt_def blackBrowser_def s_def t_def A_def m_def c_def)
  have "20 * lo - d \<le> noiseAt blackBrowser i firstPhase"
    "noiseAt blackBrowser i firstPhase \<le> 20 * hi + d"
    unfolding N using n s sA e by linarith+
  then show "20 * ((a - 1 / 10 ^ 4) - (a + 1 / 10 ^ 4) ^ 3 / 6) - 1 / 10 ^ 4
           \<le> noiseAt blackBrowser i firstPhase"
    and "noiseAt blackBrowser i firstPhase
           \<le> 20 * ((a + 1 / 10 ^ 4) - (a - 1 / 10 ^ 4) ^ 3 / 6 + (a + 1 / 10 ^ 4) ^ 5 / 120) + 1 / 10 ^ 4"
    by (simp_all add: lo_def hi_def d_def)
qed

lemma noise_first: "298 / 100 < noiseAt blackBrowser 0 firstPhase"
  "noiseAt blackBrowser 0 firstPhase < 2995 / 1000"
  using noise_black [of 0 "0.15"] by (simp_all add: eval_nat_numeral)

lemma noise_at_4: "377 / 100 < noiseAt blackBrowser 4 firstPhase"
  "noiseAt blackBrowser 4 firstPhase < 378 / 100"
  using noise_black [of 4 "0.19"] by (simp_all add: eval_nat_numeral)

lemma noise_at_1: "318 / 100 < noiseAt blackBrowser 1 firstPhase"
  "noiseAt blackBrowser 1 firstPhase < 319 / 100"
  using noise_black [of 1 "0.16"] by (simp_all add: eval_nat_numeral)

lemma stateOn_frame:
  "phaseRef (processFrame blackBrowser stateOn) = firstPhase"
  "j < 2160000 \<Longrightarrow> bitmap (the (canvasRef (processFrame blackBrowser stateOn))) ! j
     = shaded blackBrowser True firstPhase (blackFrame 900 600) j"
  using processFrame_canvas(2) [OF stateOn_fields(1,2), of blackBrowser]
    processFrame_byte [OF stateOn_fields(1,2), of j blackBrowser]
  by (simp_all add: stateOn_fields firstPhase_def)

lemma stateOff_frame:
  "phaseRef (processFrame blackBrowser stateOff) = firstPhase"
  "j < 2160000 \<Longrightarrow> bitmap (the (canvasRef (processFrame blackBrowser stateOff))) ! j
     = shaded blackBrowser False firstPhase (blackFrame 900 600) j"
  using processFrame_canvas(2) [OF stateOff_fields(1,2), of blackBrowser]
    processFrame_byte [OF stateOff_fields(1,2), of j blackBrowser]
  by (simp_all add: stateOff_fields firstPhase_def)

lemma binary64_byte_10: "binary64 (real (unat (w :: 8 word)) + 10) = real (unat w + 10)"
  using binary64_byte_plus [of 10 w] by (simp del: of_nat_unat)

lemma binary64_byte_40: "binary64 (real (unat (w :: 8 word)) + 40) = real (unat w) + 40"
  using binary64_byte_plus [of 40 w] by (simp del: of_nat_unat)

lemma binary64_byte_50: "binary64 (real (unat (w :: 8 word)) + 50) = real (unat w) + 50"
  using binary64_byte_plus [of 50 w] by (simp del: of_nat_unat)

subsection \<open>The written channels\<close>

text \<open>
  C1 (as amended). In a frame processed with the filter on, for every pixel \<open>p\<close> of the
  buffer read back, with channels \<open>r\<close>, \<open>g\<close>, \<open>b\<close> and noise \<open>N\<close> (the number the code
  computes for the pixel): the red byte written is \<open>clamp(r + 10, 0, 255)\<close>; the green
  byte written is \<open>clamp(g + 40 - N, 0, 255)\<close>, with \<open>g + 40 - N\<close> computed in doubles,
  rounded to the nearest integer, a tie going to the even one; the blue byte written is
  \<open>clamp(b + 50 - N, 0, 255)\<close>, computed and rounded in the same way.
\<close>

theorem filter_on_written_channels:
  assumes "canvasRef st = Some cv" and "imageRef st = Some img" and "quantumMode st"
    and "4 * p + 2 < length (readFrame B cv img)"
  shows "let data = readFrame B cv img;
             out = bitmap (the (canvasRef (processFrame B st)));
             N = noiseAt B (4 * p) (phaseRef (processFrame B st))
         in unat (out ! (4 * p)) = min 255 (max 0 (unat (data ! (4 * p)) + 10)) \<and>
            roundedTo (out ! (4 * p + 1))
              (min 255 (max 0 (binary64 (real (unat (data ! (4 * p + 1))) + 40 - N)))) \<and>
            roundedTo (out ! (4 * p + 2))
              (min 255 (max 0 (binary64 (real (unat (data ! (4 * p + 2))) + 50 - N))))"
proof -
  let ?data = "readFrame B cv img"
  let ?ph = "binary64 (phaseRef st + binary64 0.15)"
  let ?out = "bitmap (the (canvasRef (processFrame B st)))"
  let ?g = "binary64 (real (unat (?data ! (4 * p + 1))) + 40 - noiseAt B (4 * p) ?ph)"
  let ?b = "binary64 (real (unat (?data ! (4 * p + 2))) + 50 - noiseAt B (4 * p) ?ph)"
  have m: "(4 * p) mod 4 = 0" "(4 * p + 1) mod 4 = 1" "(4 * p + 2) mod 4 = 2" by presburger+
  have r: "?out ! (4 * p) = toUint8Clamp (min 255 (real (unat (?data ! (4 * p)) + 10)))"
    using assms m
    by (simp add: processFrame_byte shaded_def binary64_byte_10 del: of_nat_unat of_nat_add)
  have g: "?out ! (4 * p + 1) = toUint8Clamp (min 255 ?g)"
    using assms m by (simp add: processFrame_byte shaded_def binary64_byte_40 del: of_nat_unat)
  have b: "?out ! (4 * p + 2) = toUint8Clamp (min 255 ?b)"
    using assms m by (simp add: processFrame_byte shaded_def binary64_byte_50 del: of_nat_unat)
  have ph: "phaseRef (processFrame B st) = ?ph"
    using assms by (simp add: processFrame_canvas)
  have c: "min 255 (max 0 (min 255 y)) = min 255 (max 0 y)" for y :: real
    by simp
  have ten: "min 255 (real n) = real (min 255 n)" for n :: nat
    by (simp add: min_def)
  have red: "unat (?out ! (4 * p)) = min 255 (max 0 (unat (?data ! (4 * p)) + 10))"
    unfolding r ten by (subst toUint8Clamp_of_nat) simp_all
  have green: "roundedTo (?out ! (4 * p + 1)) (min 255 (max 0 ?g))"
    unfolding g using toUint8Clamp_rounded [of "min 255 ?g"] by (simp only: c)
  have blue: "roundedTo (?out ! (4 * p + 2)) (min 255 (max 0 ?b))"
    unfolding b using toUint8Clamp_rounded [of "min 255 ?b"] by (simp only: c)
  show ?thesis
    unfolding Let_def ph using red green blue by (intro conjI)
qed

theorem filter_on_written_channels_witness:
  "unat (bitmap (the (canvasRef (processFrame blackBrowser stateOn))) ! 0) = 10 \<and>
   roundedTo (bitmap (the (canvasRef (processFrame blackBrowser stateOn))) ! 1)
     (min 255 (max 0 (binary64 (40 - noiseAt blackBrowser 0 firstPhase)))) \<and>
   roundedTo (bitmap (the (canvasRef (processFrame blackBrowser stateOn))) ! 2)
     (min 255 (max 0 (binary64 (50 - noiseAt blackBrowser 0 firstPhase))))"
proof -
  have len: "4 * 0 + 2 < length (readFrame blackBrowser
      \<lparr>width = 900, height = 600, bitmap = replicate (4 * 900 * 600) 0, strokes = []\<rparr>
      \<lparr>src = url (TARGETS MOON), img_width = 600, img_height = 600\<rparr>)"
    by simp
  show ?thesis
    using filter_on_written_channels [OF stateOn_fields(1) stateOn_fields(2) stateOn_fields(3) len]
    by (simp add: Let_def blackFrame_nth stateOn_frame(1) numeral_2_eq_2)
qed

text \<open>
  C1 as stated fails: the bytes of the buffer are integers. In the first frame with the
  filter on, the green channel of the first pixel of a black picture is written as 37,
  and \<open>clamp(0 + 40 - N, 0, 255)\<close> is not 37, whether the sum is taken exactly or in
  doubles.
\<close>

theorem filter_on_counterexample:
  "quantumMode stateOn \<and>
   unat (readFrame blackBrowser (the (canvasRef stateOn)) (the (imageRef stateOn)) ! 1) = 0 \<and>
   unat (bitmap (the (canvasRef (processFrame blackBrowser stateOn))) ! 1) = 37 \<and>
   real (unat (bitmap (the (canvasRef (processFrame blackBrowser stateOn))) ! 1)) \<noteq>
     min 255 (max 0
       (real (unat (readFrame blackBrowser (the (canvasRef stateOn)) (the (imageRef stateOn)) ! 1))
        + 40 - noiseAt blackBrowser 0 (phaseRef (processFrame blackBrowser stateOn)))) \<and>
   real (unat (bitmap (the (canvasRef (processFrame blackBrowser stateOn))) ! 1)) \<noteq>
     min 255 (max 0
       (binary64 (binary64
          (real (unat (readFrame blackBrowser (the (canvasRef stateOn)) (the (imageRef stateOn)) ! 1))
           + 40) - noiseAt blackBrowser 0 (phaseRef (processFrame blackBrowser stateOn)))))"
proof -
  define N where "N = noiseAt blackBrowser 0 firstPhase"
  define V where "V = binary64 (40 - N)"
  define e :: real where "e = 1 / 10 ^ 12"
  have e: "0 \<le> e" "e \<le> 1 / 1000" by (simp_all add: e_def)
  have N: "298 / 100 < N" "N < 2995 / 1000" using noise_first by (simp_all add: N_def)
  then have "\<bar>40 - N\<bar> \<le> 512" unfolding abs_le_iff by linarith
  from binary64_within [OF this, folded e_def V_def]
  have V: "37 < V" "V < 3703 / 100" using N e by linarith+
  have g: "readFrame blackBrowser (the (canvasRef stateOn)) (the (imageRef stateOn)) ! 1 = 0"
    by (simp add: stateOn_fields blackFrame_nth)
  have forty: "binary64 40 = 40" using binary64_nat [of 40] by simp
  have w: "bitmap (the (canvasRef (processFrame blackBrowser stateOn))) ! 1
             = toUint8Clamp (min 255 V)"
    using g by (simp add: stateOn_frame shaded_def stateOn_fields forty V_def N_def)
  have v: "unat (toUint8Clamp (min 255 V)) = 37"
    using V by (intro toUint8Clamp_near) simp_all
  have c1: "quantumMode stateOn" by (rule stateOn_fields(3))
  have c2: "unat (readFrame blackBrowser (the (canvasRef stateOn)) (the (imageRef stateOn)) ! 1) = 0"
    unfolding g by simp
  have c3: "unat (bitmap (the (canvasRef (processFrame blackBrowser stateOn))) ! 1) = 37"
    unfolding w by (rule v)
  have c4: "real (unat (bitmap (the (canvasRef (processFrame blackBrowser stateOn))) ! 1)) \<noteq>
     min 255 (max 0
       (real (unat (readFrame blackBrowser (the (canvasRef stateOn)) (the (imageRef stateOn)) ! 1))
        + 40 - noiseAt blackBrowser 0 (phaseRef (processFrame blackBrowser stateOn))))"
    unfolding c3 c2 stateOn_frame(1) N_def [symmetric] using N by simp
  have c5: "real (unat (bitmap (the (canvasRef (processFrame blackBrowser stateOn))) ! 1)) \<noteq>
     min 255 (max 0
       (binary64 (binary64
          (real (unat (readFrame blackBrowser (the (canvasRef stateOn)) (the (imageRef stateOn)) ! 1))
           + 40) - noiseAt blackBrowser 0 (phaseRef (processFrame blackBrowser stateOn)))))"
    unfolding c3 c2 stateOn_frame(1) N_def [symmetric] using V by (simp add: forty V_def [symmetric])
  show ?thesis
    using c1 c2 c3 c4 c5 by (intro conjI)
qed

text \<open>
  C2 (as amended). In a frame processed with the filter off, for every pixel \<open>p\<close> of the
  buffer read back and each of its red, green and blue channels, the byte written is
  \<open>clamp(channel + N, 0, 255)\<close>, with \<open>channel + N\<close> computed in doubles, rounded to the
  nearest integer, a tie going to the even one, where \<open>N\<close> is the noise the code computes
  for the pixel.
\<close>

theorem filter_off_written_channels:
  assumes "canvasRef st = Some cv" and "imageRef st = Some img" and "\<not> quantumMode st"
    and "4 * p + 2 < length (readFrame B cv img)"
  shows "let data = readFrame B cv img;
             out = bitmap (the (canvasRef (processFrame B st)));
             N = noiseAt B (4 * p) (phaseRef (processFrame B st))
         in roundedTo (out ! (4 * p))
              (min 255 (max 0 (binary64 (real (unat (data ! (4 * p))) + N)))) \<and>
            roundedTo (out ! (4 * p + 1))
              (min 255 (max 0 (binary64 (real (unat (data ! (4 * p + 1))) + N)))) \<and>
            roundedTo (out ! (4 * p + 2))
              (min 255 (max 0 (binary64 (real (unat (data ! (4 * p + 2))) + N))))"
proof -
  let ?data = "readFrame B cv img"
  let ?ph = "binary64 (phaseRef st + binary64 0.15)"
  let ?out = "bitmap (the (canvasRef (processFrame B st)))"
  let ?v = "\<lambda>j. binary64 (real (unat (?data ! j)) + noiseAt B (4 * p) ?ph)"
  have m: "(4 * p) mod 4 = 0" "(4 * p + 1) mod 4 = 1" "(4 * p + 2) mod 4 = 2" by presburger+
  have r: "?out ! (4 * p) = toUint8Clamp (max 0 (?v (4 * p)))"
    using assms m by (simp add: processFrame_byte shaded_def del: of_nat_unat)
  have g: "?out ! (4 * p + 1) = toUint8Clamp (max 0 (?v (4 * p + 1)))"
    using assms m by (simp add: processFrame_byte shaded_def del: of_nat_unat)
  have b: "?out ! (4 * p + 2) = toUint8Clamp (max 0 (?v (4 * p + 2)))"
    using assms m by (simp add: processFrame_byte shaded_def del: of_nat_unat)
  have ph: "phaseRef (processFrame B st) = ?ph"
    using assms by (simp add: processFrame_canvas)
  have c: "min 255 (max 0 (max 0 y)) = min 255 (max 0 y)" for y :: real
    by simp
  have red: "roundedTo (?out ! (4 * p)) (min 255 (max 0 (?v (4 * p))))"
    unfolding r using toUint8Clamp_rounded [of "max 0 (?v (4 * p))"] by (simp only: c)
  have green: "roundedTo (?out ! (4 * p + 1)) (min 255 (max 0 (?v (4 * p + 1))))"
    unfolding g using toUint8Clamp_rounded [of "max 0 (?v (4 * p + 1))"] by (simp only: c)
  have blue: "roundedTo (?out ! (4 * p + 2)) (min 255 (max 0 (?v (4 * p + 2))))"
    unfolding b using toUint8Clamp_rounded [of "max 0 (?v (4 * p + 2))"] by (simp only: c)
  show ?thesis
    unfolding Let_def ph using red green blue by (intro conjI)
qed

theorem filter_off_written_channels_witness:
  "roundedTo (bitmap (the (canvasRef (processFrame blackBrowser stateOff))) ! 0)
     (min 255 (max 0 (binary64 (noiseAt blackBrowser 0 firstPhase)))) \<and>
   roundedTo (bitmap (the (canvasRef (processFrame blackBrowser stateOff))) ! 1)
     (min 255 (max 0 (binary64 (noiseAt blackBrowser 0 firstPhase)))) \<and>
   roundedTo (bitmap (the (canvasRef (processFrame blackBrowser stateOff))) ! 2)
     (min 255 (max 0 (binary64 (noiseAt blackBrowser 0 firstPhase))))"
proof -
  have len: "4 * 0 + 2 < length (readFrame blackBrowser
      \<lparr>width = 900, height = 600, bitmap = replicate (4 * 900 * 600) 0, strokes = []\<rparr>
      \<lparr>src = url (TARGETS MOON), img_width = 600, img_height = 600\<rparr>)"
    by simp
  show ?thesis
    using filter_off_written_channels [OF stateOff_fields(1) stateOff_fields(2) stateOff_fields(3) len]
    by (simp add: Let_def blackFrame_nth stateOff_frame(1) numeral_2_eq_2)
qed

text \<open>
  C2 as stated fails for the same reason: in the first frame with the filter off, the red
  channel of the first pixel of a black picture is written as 3, and
  \<open>clamp(0 + N, 0, 255)\<close> is not 3, whether the sum is taken exactly or in doubles.
\<close>

theorem filter_off_counterexample:
  "\<not> quantumMode stateOff \<and>
   unat (readFrame blackBrowser (the (canvasRef stateOff)) (the (imageRef stateOff)) ! 0) = 0 \<and>
   unat (bitmap (the (canvasRef (processFrame blackBrowser stateOff))) ! 0) = 3 \<and>
   real (unat (bitmap (the (canvasRef (processFrame blackBrowser stateOff))) ! 0)) \<noteq>
     min 255 (max 0
       (real (unat (readFrame blackBrowser (the (canvasRef stateOff)) (the (imageRef stateOff)) ! 0))
        + noiseAt blackBrowser 0 (phaseRef (processFrame blackBrowser stateOff)))) \<and>
   real (unat (bitmap (the (canvasRef (processFrame blackBrowser stateOff))) ! 0)) \<noteq>
     min 255 (max 0
       (binary64
          (real (unat (readFrame blackBrowser (the (canvasRef stateOff)) (the (imageRef stateOff)) ! 0))
           + noiseAt blackBrowser 0 (phaseRef (processFrame blackBrowser stateOff)))))"
proof -
  define N where "N = noiseAt blackBrowser 0 firstPhase"
  define V where "V = binary64 N"
  define e :: real where "e = 1 / 10 ^ 12"
  have e: "0 \<le> e" "e \<le> 1 / 1000" by (simp_all add: e_def)
  have N: "298 / 100 < N" "N < 2995 / 1000" using noise_first by (simp_all add: N_def)
  then have "\<bar>N\<bar> \<le> 512" unfolding abs_le_iff by linarith
  from binary64_within [OF this, folded e_def V_def]
  have V: "297 / 100 < V" "V < 3" using N e by linarith+
  have g: "readFrame blackBrowser (the (canvasRef stateOff)) (the (imageRef stateOff)) ! 0 = 0"
    by (simp add: stateOff_fields blackFrame_nth)
  have w: "bitmap (the (canvasRef (processFrame blackBrowser stateOff))) ! 0
             = toUint8Clamp (max 0 V)"
    using g by (simp add: stateOff_frame shaded_def stateOff_fields V_def N_def)
  have v: "unat (toUint8Clamp (max 0 V)) = 3"
    using V by (intro toUint8Clamp_near) simp_all
  have c1: "\<not> quantumMode stateOff" by (rule stateOff_fields(3))
  have c2: "unat (readFrame blackBrowser (the (canvasRef stateOff)) (the (imageRef stateOff)) ! 0) = 0"
    unfolding g by simp
  have c3: "unat (bitmap (the (canvasRef (processFrame blackBrowser stateOff))) ! 0) = 3"
    unfolding w by (rule v)
  have c4: "real (unat (bitmap (the (canvasRef (processFrame blackBrowser stateOff))) ! 0)) \<noteq>
     min 255 (max 0
       (real (unat (readFrame blackBrowser (the (canvasRef stateOff)) (the (imageRef stateOff)) ! 0))
        + noiseAt blackBrowser 0 (phaseRef (processFrame blackBrowser stateOff))))"
    unfolding c3 c2 stateOff_frame(1) N_def [symmetric] using N by simp
  have c5: "real (unat (bitmap (the (canvasRef (processFrame blackBrowser stateOff))) ! 0)) \<noteq>
     min 255 (max 0
       (binary64
          (real (unat (readFrame blackBrowser (the (canvasRef stateOff)) (the (imageRef stateOff)) ! 0))
           + noiseAt blackBrowser 0 (phaseRef (processFrame blackBrowser stateOff)))))"
    unfolding c3 c2 stateOff_frame(1) N_def [symmetric] using V by (simp add: V_def [symmetric])
  show ?thesis
    using c1 c2 c3 c4 c5 by (intro conjI)
qed

subsection \<open>The noise of a pixel\<close>

text \<open>
  C3 (as amended). In every processed frame, the noise applied to the pixel with pixel
  index \<open>p\<close> is \<open>Math.sin((4p * 0.01) + phase) * 20\<close> computed in doubles: the argument of
  the sine is taken at the offset \<open>4p\<close> of the pixel's first byte in the RGBA buffer, not
  at \<open>p\<close>. Here \<open>phase\<close> is the phase accumulator after this frame has advanced it by
  0.15, which is the double nearest to the sum. The theorem says it of the bytes written:
  each is the source's expression at that noise, as stored.
\<close>

theorem noise_of_pixel:
  assumes "canvasRef st = Some cv" and "imageRef st = Some img"
    and "4 * p + 2 < length (readFrame B cv img)"
  shows "let data = readFrame B cv img;
             out = bitmap (the (canvasRef (processFrame B st)));
             phase = phaseRef (processFrame B st);
             N = binary64 (Math_sin B (binary64 (binary64 (real (4 * p) * binary64 0.01) + phase)) * 20);
             r = real (unat (data ! (4 * p)));
             g = real (unat (data ! (4 * p + 1)));
             b = real (unat (data ! (4 * p + 2)))
         in phase = binary64 (phaseRef st + binary64 0.15) \<and>
            out ! (4 * p) =
              toUint8Clamp (if quantumMode st then min 255 (binary64 (r + 10))
                            else max 0 (binary64 (r + N))) \<and>
            out ! (4 * p + 1) =
              toUint8Clamp (if quantumMode st then min 255 (binary64 (binary64 (g + 40) - N))
                            else max 0 (binary64 (g + N))) \<and>
            out ! (4 * p + 2) =
              toUint8Clamp (if quantumMode st then min 255 (binary64 (binary64 (b + 50) - N))
                            else max 0 (binary64 (b + N)))"
proof -
  have m: "(4 * p) mod 4 = 0" "(4 * p + 1) mod 4 = 1" "(4 * p + 2) mod 4 = 2" by presburger+
  have ph: "phaseRef (processFrame B st) = binary64 (phaseRef st + binary64 0.15)"
    using assms by (simp add: processFrame_canvas)
  show ?thesis
    unfolding Let_def ph
    using assms m by (simp add: processFrame_byte shaded_def noiseAt_def del: of_nat_unat)
qed

theorem noise_of_pixel_witness:
  "phaseRef (processFrame blackBrowser stateOff) = binary64 (0 + binary64 0.15) \<and>
   bitmap (the (canvasRef (processFrame blackBrowser stateOff))) ! 4 =
     toUint8Clamp (max 0 (binary64 (0 + noiseAt blackBrowser 4 firstPhase)))"
proof -
  have len: "4 * 1 + 2 < length (readFrame blackBrowser
      \<lparr>width = 900, height = 600, bitmap = replicate (4 * 900 * 600) 0, strokes = []\<rparr>
      \<lparr>src = url (TARGETS MOON), img_width = 600, img_height = 600\<rparr>)"
    by simp
  show ?thesis
    using noise_of_pixel [OF stateOff_fields(1) stateOff_fields(2) len]
    by (simp add: Let_def blackFrame_nth stateOff_fields(3) stateOff_fields(4) stateOff_frame(1)
          noiseAt_def Math_sin_black firstPhase_def)
qed

text \<open>
  C3 as stated fails. In the first frame with the filter off, at the second pixel
  (pixel index 1, offset 4) of a black picture, the noise applied is neither
  \<open>sin(1 * 0.01 + phase) * 20\<close> nor that expression computed in doubles: the red byte
  written is 4, and with the noise of the claim it would be 3.
\<close>

theorem noise_of_pixel_counterexample:
  "noiseAt blackBrowser (4 * 1) (phaseRef (processFrame blackBrowser stateOff)) \<noteq>
     sin (real 1 * 0.01 + phaseRef (processFrame blackBrowser stateOff)) * 20 \<and>
   noiseAt blackBrowser (4 * 1) (phaseRef (processFrame blackBrowser stateOff)) \<noteq>
     noiseAt blackBrowser 1 (phaseRef (processFrame blackBrowser stateOff)) \<and>
   unat (bitmap (the (canvasRef (processFrame blackBrowser stateOff))) ! (4 * 1)) = 4 \<and>
   unat (toUint8Clamp (max 0 (binary64
     (real (unat (readFrame blackBrowser (the (canvasRef stateOff)) (the (imageRef stateOff)) ! (4 * 1)))
      + noiseAt blackBrowser 1 (phaseRef (processFrame blackBrowser stateOff)))))) = 3 \<and>
   unat (toUint8Clamp (max 0
     (real (unat (readFrame blackBrowser (the (canvasRef stateOff)) (the (imageRef stateOff)) ! (4 * 1)))
      + sin (real 1 * 0.01 + phaseRef (processFrame blackBrowser stateOff)) * 20))) = 3"
proof -
  define N4 where "N4 = noiseAt blackBrowser 4 firstPhase"
  define N1 where "N1 = noiseAt blackBrowser 1 firstPhase"
  define S where "S = sin (1 / 100 + firstPhase) * 20"
  define e :: real where "e = 1 / 10 ^ 12"
  have e: "0 \<le> e" "e \<le> 1 / 1000" by (simp_all add: e_def)
  have N4: "377 / 100 < N4" "N4 < 378 / 100" using noise_at_4 by (simp_all add: N4_def)
  have N1: "318 / 100 < N1" "N1 < 319 / 100" using noise_at_1 by (simp_all add: N1_def)
  have S: "318 / 100 < S" "S < 321 / 100"
  proof -
    have a: "(0::real) \<le> 1599 / 10000" by simp
    have b: "1599 / 10000 \<le> 1 / 100 + firstPhase" "1 / 100 + firstPhase \<le> 1601 / 10000"
      using firstPhase_bounds by simp_all
    from sin_between [OF a b]
    show "318 / 100 < S" "S < 321 / 100"
      by (simp_all add: S_def eval_nat_numeral)
  qed
  have "\<bar>N4\<bar> \<le> 512" using N4 unfolding abs_le_iff by linarith
  from binary64_within [OF this, folded e_def]
  have V4: "35 / 10 < binary64 N4" "binary64 N4 < 45 / 10" using N4 e by linarith+
  have "\<bar>N1\<bar> \<le> 512" using N1 unfolding abs_le_iff by linarith
  from binary64_within [OF this, folded e_def]
  have V1: "25 / 10 < binary64 N1" "binary64 N1 < 35 / 10" using N1 e by linarith+
  have d: "readFrame blackBrowser (the (canvasRef stateOff)) (the (imageRef stateOff)) ! (4 * 1) = 0"
    by (simp add: stateOff_fields blackFrame_nth)
  have w: "bitmap (the (canvasRef (processFrame blackBrowser stateOff))) ! (4 * 1)
             = toUint8Clamp (max 0 (binary64 N4))"
    using d by (simp add: stateOff_frame shaded_def stateOff_fields N4_def)
  have s: "sin (real 1 * 0.01 + firstPhase) * 20 = S" by (simp add: S_def)
  have n4: "noiseAt blackBrowser (4 * 1) firstPhase = N4" by (simp add: N4_def)
  have c1: "noiseAt blackBrowser (4 * 1) (phaseRef (processFrame blackBrowser stateOff)) \<noteq>
     sin (real 1 * 0.01 + phaseRef (processFrame blackBrowser stateOff)) * 20"
    unfolding stateOff_frame(1) s n4 using N4 S by simp
  have c2: "noiseAt blackBrowser (4 * 1) (phaseRef (processFrame blackBrowser stateOff)) \<noteq>
     noiseAt blackBrowser 1 (phaseRef (processFrame blackBrowser stateOff))"
    unfolding stateOff_frame(1) n4 N1_def [symmetric] using N4 N1 by simp
  have c3: "unat (bitmap (the (canvasRef (processFrame blackBrowser stateOff))) ! (4 * 1)) = 4"
    unfolding w using V4 by (intro toUint8Clamp_near) simp_all
  have c4: "unat (toUint8Clamp (max 0 (binary64
     (real (unat (readFrame blackBrowser (the (canvasRef stateOff)) (the (imageRef stateOff)) ! (4 * 1)))
      + noiseAt blackBrowser 1 (phaseRef (processFrame blackBrowser stateOff)))))) = 3"
    unfolding stateOff_frame(1) d N1_def [symmetric] using V1 by (intro toUint8Clamp_near) simp_all
  have c5: "unat (toUint8Clamp (max 0
     (real (unat (readFrame blackBrowser (the (canvasRef stateOff)) (the (imageRef stateOff)) ! (4 * 1)))
      + sin (real 1 * 0.01 + phaseRef (processFrame blackBrowser stateOff)) * 20))) = 3"
    unfolding stateOff_frame(1) d s using S by (intro toUint8Clamp_near) simp_all
  show ?thesis using c1 c2 c3 c4 c5 by (intro conjI)
qed

subsection \<open>The log\<close>

text \<open>
  C4. The log never holds more than ten entries: it starts with two, every \<open>addLog\<close>
  leaves at most ten whatever it found, and so does every sequence of them. Each
  \<open>addLog\<close> puts the new entry in front of the first nine of the old ones, in their
  order: all of them when there were fewer than ten, and all but the last, which is the
  oldest, when there were ten.
\<close>

theorem log_capped:
  "length (logs initial) \<le> 10 \<and>
   length (logs (addLog B msg st)) \<le> 10 \<and>
   logs (addLog B msg st) = (''['' @ toLocaleTimeString B (now st) @ ''] '' @ msg) # take 9 (logs st) \<and>
   (length (logs st) < 10 \<longrightarrow> take 9 (logs st) = logs st) \<and>
   (length (logs st) = 10 \<longrightarrow> take 9 (logs st) = butlast (logs st)) \<and>
   length (logs (fold (addLog B) msgs initial)) \<le> 10"
proof -
  have a: "length (logs (addLog B m s)) \<le> 10" for m s
    by (simp add: addLog_def)
  have "length (logs s) \<le> 10 \<Longrightarrow> length (logs (fold (addLog B) msgs s)) \<le> 10" for s
    by (induction msgs arbitrary: s) (simp_all add: a)
  then have f: "length (logs (fold (addLog B) msgs initial)) \<le> 10"
    by (simp add: initial_def)
  have t: "take 10 (e # xs) = e # take 9 xs" for e :: string and xs
    by (simp add: take_Cons')
  show ?thesis
    using f by (simp add: a addLog_def t butlast_conv_take initial_def)
qed

theorem log_capped_witness:
  "logs (addLog blackBrowser ''x'' initial) =
     [''[12:00:00] x'', ''>> SYSTEM INITIALIZED'', ''>> TELESCOPE LINK ESTABLISHED'']"
  using log_capped [of blackBrowser "''x''" initial "[]"]
  by (simp add: initial_def blackBrowser_def)

subsection \<open>Ending a session\<close>

text \<open>
  C6. Triggering connect while the state is \<open>ACTIVE\<close> sets it to \<open>DISCONNECTED\<close> in the
  call itself; the call sets no timer and the clock does not move.
\<close>

theorem connect_while_active:
  "ibmStatus st = ACTIVE \<Longrightarrow>
   ibmStatus (connectToIBM B st) = DISCONNECTED \<and>
   timers (connectToIBM B st) = timers st \<and>
   now (connectToIBM B st) = now st"
  by (simp add: connectToIBM_def addLog_def)

theorem connect_while_active_witness:
  "ibmStatus (connectToIBM blackBrowser stateActive) = DISCONNECTED \<and>
   timers (connectToIBM blackBrowser stateActive) = []"
  using connect_while_active [OF stateActive_fields(1), of blackBrowser]
  by (simp add: stateActive_fields)

subsection \<open>A failed image request\<close>

text \<open>
  C8. When an image request fails, nothing of the component changes but the list of
  requests in flight: the loaded image is the one before, no line is logged, the function
  is total (no crash), and the next frame draws the same canvas as it would have.
\<close>

theorem image_failure_silent:
  "imageError k st = st\<lparr>loading := loading (imageError k st)\<rparr> \<and>
   imageRef (imageError k st) = imageRef st \<and>
   logs (imageError k st) = logs st \<and>
   canvasRef (processFrame B (imageError k st)) = canvasRef (processFrame B st)"
  by (simp add: imageError_def processFrame_def Let_def split: option.splits)

subsection \<open>A frame without surface or image\<close>

text \<open>
  C9. When the canvas or the image is missing, \<open>processFrame\<close> returns the state as it
  found it: nothing is drawn, no pixel is transformed, the phase does not advance, and
  nothing is reported.
\<close>

theorem frame_skipped:
  "canvasRef st = None \<or> imageRef st = None \<Longrightarrow> processFrame B st = st"
  by (auto simp: processFrame_def split: option.splits)

theorem frame_skipped_witness:
  "processFrame blackBrowser (mount blackBrowser) = mount blackBrowser"
proof -
  have "imageRef (mount blackBrowser) = None"
    by (simp add: mount_def initial_def imageLoaderEffect_def addLog_def)
  then show ?thesis using frame_skipped [of "mount blackBrowser" blackBrowser] by simp
qed

subsection \<open>The filter flag after a session\<close>

lemma quantumMode_addLog [simp]: "quantumMode (addLog B msg st) = quantumMode st"
  by (simp add: addLog_def)

lemma quantumMode_runTimer: "quantumMode st \<Longrightarrow> quantumMode (runTimer B cb st)"
  by (cases cb) (simp_all add: setTimeout_def setQuantumMode_def)

lemma quantumMode_elapse: "quantumMode st \<Longrightarrow> quantumMode (elapse B d st)"
proof (induction B d st rule: elapse.induct)
  case (1 B d st)
  show ?case
  proof (cases "timers st")
    case Nil
    then show ?thesis using "1.prems" by (subst elapse.simps) simp
  next
    case (Cons t rest)
    show ?thesis
    proof (cases "fst t \<le> now st + d")
      case True
      have "quantumMode (runTimer B (snd t) (st\<lparr>timers := rest, now := max (fst t) (now st)\<rparr>))"
        using "1.prems" by (simp add: quantumMode_runTimer)
      then show ?thesis
        using "1.IH" [OF Cons True] Cons True by (subst elapse.simps) simp
    next
      case False
      then show ?thesis using "1.prems" Cons by (subst elapse.simps) simp
    qed
  qed
qed

text \<open>
  C10. Triggering connect while the state is \<open>ACTIVE\<close> leaves the filter flag as it was.
  A flag that is true stays true under every event other than a click on the filter
  button, and that click clears it.
\<close>

theorem session_end_keeps_filter:
  "(ibmStatus st = ACTIVE \<longrightarrow> quantumMode (connectToIBM B st) = quantumMode st) \<and>
   (quantumMode st \<and> ev \<noteq> ClickToggle \<longrightarrow> quantumMode (step B st ev)) \<and>
   (quantumMode st \<longrightarrow> \<not> quantumMode (step B st ClickToggle))"
proof -
  have c: "quantumMode (connectToIBM B st) = quantumMode st"
    by (simp add: connectToIBM_def setTimeout_def)
  have s: "quantumMode (step B st ev)" if "quantumMode st" "ev \<noteq> ClickToggle"
    using that
    by (cases ev)
       (simp_all add: c setTarget_def imageLoaderEffect_def imageOnload_def Let_def
          imageError_def animationFrame_def processFrame_def quantumMode_elapse
          split: option.splits)
  show ?thesis
    using c s by (simp add: toggleQuantumMode_def setQuantumMode_def)
qed

theorem session_end_keeps_filter_witness:
  "quantumMode (connectToIBM blackBrowser stateActive) \<and>
   ibmStatus (connectToIBM blackBrowser stateActive) = DISCONNECTED \<and>
   quantumMode (step blackBrowser (connectToIBM blackBrowser stateActive) ClickConnect) \<and>
   \<not> quantumMode (step blackBrowser (connectToIBM blackBrowser stateActive) ClickToggle)"
proof -
  have q: "quantumMode (connectToIBM blackBrowser stateActive)"
    using session_end_keeps_filter [of stateActive blackBrowser ClickConnect]
    by (simp add: stateActive_fields)
  have d: "ibmStatus (connectToIBM blackBrowser stateActive) = DISCONNECTED"
    by (simp add: connectToIBM_def addLog_def stateActive_fields)
  show ?thesis
    using q d session_end_keeps_filter [of "connectToIBM blackBrowser stateActive" blackBrowser ClickConnect]
    by simp
qed

subsection \<open>The connection sequence\<close>







subsection \<open>Selecting a target\<close>

lemma loading_runTimer [simp]: "loading (runTimer B cb st) = loading st"
  by (cases cb) (simp_all add: setTimeout_def setQuantumMode_def addLog_def)

lemma ephemeris_runTimer [simp]: "ephemeris (runTimer B cb st) = ephemeris st"
  by (cases cb) (simp_all add: setTimeout_def setQuantumMode_def addLog_def)

lemma elapse_requests:
  "loading (elapse B d st) = loading st \<and> ephemeris (elapse B d st) = ephemeris st"
proof (induction B d st rule: elapse.induct)
  case (1 B d st)
  show ?case
  proof (cases "timers st")
    case Nil
    then show ?thesis by (subst (1 2) elapse.simps) simp
  next
    case (Cons t rest)
    show ?thesis
    proof (cases "fst t \<le> now st + d")
      case True
      show ?thesis
        using "1.IH" [OF Cons True] Cons True by (subst (1 2) elapse.simps) simp
    next
      case False
      then show ?thesis using Cons by (subst (1 2) elapse.simps) simp
    qed
  qed
qed

text \<open>
  C7 (as amended). For each of the four target ids, selecting it while another target is
  current makes it the current target, starts an image request for it and leaves the
  displayed metadata as they were. Whenever the image of a request in flight loads, in
  whatever order the requests complete and whatever has been selected since, the
  displayed metadata (right ascension, declination, distance) become exactly the static
  record of the target that request was started for. A request keeps its target while it
  is in flight: an event only removes the request that completes and appends the one
  that starts. No event other than a load changes the metadata; a failed request leaves
  them as they were.
\<close>

theorem selected_target_metadata:
  "(t \<noteq> target st \<longrightarrow>
      target (setTarget B t st) = t \<and>
      loading (setTarget B t st) = loading st @ [t] \<and>
      ephemeris (setTarget B t st) = ephemeris st) \<and>
   (k < length (loading st) \<longrightarrow>
      ephemeris (imageOnload B k w h st) = TARGETS (loading st ! k) \<and>
      ra (ephemeris (imageOnload B k w h st)) = ra (TARGETS (loading st ! k)) \<and>
      dec (ephemeris (imageOnload B k w h st)) = dec (TARGETS (loading st ! k)) \<and>
      dist_t (ephemeris (imageOnload B k w h st)) = dist_t (TARGETS (loading st ! k))) \<and>
   loading (step B st ev) =
     (case ev of
        ClickTarget t' \<Rightarrow> if t' = target st then loading st else loading st @ [t']
      | ImageLoaded j w' h' \<Rightarrow>
          if j < length (loading st) then take j (loading st) @ drop (Suc j) (loading st)
          else loading st
      | ImageFailed j \<Rightarrow>
          if j < length (loading st) then take j (loading st) @ drop (Suc j) (loading st)
          else loading st
      | _ \<Rightarrow> loading st) \<and>
   ((\<forall>j w' h'. ev \<noteq> ImageLoaded j w' h') \<longrightarrow> ephemeris (step B st ev) = ephemeris st)"
proof -
  have a: "target (setTarget B t st) = t \<and> loading (setTarget B t st) = loading st @ [t] \<and>
           ephemeris (setTarget B t st) = ephemeris st" if "t \<noteq> target st"
    using that by (simp add: setTarget_def imageLoaderEffect_def addLog_def)
  have b: "ephemeris (imageOnload B k w h st) = TARGETS (loading st ! k)" if "k < length (loading st)"
    using that by (simp add: imageOnload_def Let_def addLog_def)
  have c: "loading (step B st ev) =
     (case ev of
        ClickTarget t' \<Rightarrow> if t' = target st then loading st else loading st @ [t']
      | ImageLoaded j w' h' \<Rightarrow>
          if j < length (loading st) then take j (loading st) @ drop (Suc j) (loading st)
          else loading st
      | ImageFailed j \<Rightarrow>
          if j < length (loading st) then take j (loading st) @ drop (Suc j) (loading st)
          else loading st
      | _ \<Rightarrow> loading st)"
    by (cases ev)
       (simp_all add: connectToIBM_def setTimeout_def addLog_def toggleQuantumMode_def
          setQuantumMode_def setTarget_def imageLoaderEffect_def imageOnload_def Let_def
          imageError_def animationFrame_def processFrame_def elapse_requests
          split: option.splits)
  have d: "ephemeris (step B st ev) = ephemeris st" if "\<forall>j w' h'. ev \<noteq> ImageLoaded j w' h'"
    using that
    by (cases ev)
       (simp_all add: connectToIBM_def setTimeout_def addLog_def toggleQuantumMode_def
          setQuantumMode_def setTarget_def imageLoaderEffect_def
          imageError_def animationFrame_def processFrame_def Let_def elapse_requests
          split: option.splits)
  show ?thesis
    using a b c d by simp
qed

theorem selected_target_metadata_witness:
  "ephemeris (run blackBrowser [ClickTarget JUPITER, ClickTarget SATURN, ImageLoaded 1 600 600])
     = TARGETS JUPITER \<and>
   target (run blackBrowser [ClickTarget JUPITER, ClickTarget SATURN, ImageLoaded 1 600 600])
     = SATURN \<and>
   ephemeris (run blackBrowser [ClickTarget JUPITER, ImageLoaded 0 600 600, ImageLoaded 0 600 600])
     = TARGETS JUPITER"
proof -
  define s2 where "s2 = run blackBrowser [ClickTarget JUPITER, ClickTarget SATURN]"
  define s3 where "s3 = run blackBrowser [ClickTarget JUPITER, ImageLoaded 0 600 600]"
  have s2: "loading s2 = [MOON, JUPITER, SATURN]" "target s2 = SATURN"
    by (simp_all add: s2_def run_def mount_def initial_def imageLoaderEffect_def addLog_def
          setTarget_def)
  have s3: "loading s3 = [JUPITER]"
    by (simp add: s3_def run_def mount_def initial_def imageLoaderEffect_def addLog_def
          setTarget_def imageOnload_def Let_def)
  have r2: "run blackBrowser [ClickTarget JUPITER, ClickTarget SATURN, ImageLoaded 1 600 600]
              = imageOnload blackBrowser 1 600 600 s2"
    by (simp add: s2_def run_def)
  have r3: "run blackBrowser [ClickTarget JUPITER, ImageLoaded 0 600 600, ImageLoaded 0 600 600]
              = imageOnload blackBrowser 0 600 600 s3"
    by (simp add: s3_def run_def)
  have t2: "target (imageOnload blackBrowser 1 600 600 s2) = SATURN"
    using s2 by (simp add: imageOnload_def Let_def addLog_def)
  show ?thesis
    unfolding r2 r3
    using selected_target_metadata [of JUPITER s2 blackBrowser 1 600 600 ClickConnect]
      selected_target_metadata [of JUPITER s3 blackBrowser 0 600 600 ClickConnect]
      s2 s3 t2
    by simp
qed

text \<open>
  C7 as stated fails: selecting Jupiter does not by itself change the metadata, and when
  the request fails they remain those of the Moon.
\<close>

theorem selected_target_counterexample:
  "target stateJupiterFailed = JUPITER \<and>
   loading stateJupiterFailed = [MOON] \<and>
   ephemeris stateJupiterFailed = TARGETS MOON \<and>
   ephemeris stateJupiterFailed \<noteq> TARGETS JUPITER \<and>
   ephemeris (run blackBrowser [ClickTarget JUPITER]) \<noteq> TARGETS JUPITER"
  by (simp add: stateJupiterFailed_def run_def mount_def initial_def imageLoaderEffect_def
        addLog_def setTarget_def imageError_def)

end
